theory Spec2Isabelle
  imports Main "HOL-Library.Multiset"
begin

section \<open>The tournament store\<close>

text \<open>
  \<open>tournament.py\<close> keeps no state of its own: every function opens a connection to the
  PostgreSQL database \<open>tournament\<close>, runs one statement and closes the connection. The
  store is modelled by the contents of its two tables, each a list of rows in insertion
  order, and by the serial counter that numbers the players.

  \<^item> \<open>players (player_id, player_name)\<close>
  \<^item> \<open>matches (win_player_id, lose_player_id)\<close>
\<close>

type_synonym player_row = "int \<times> string"

type_synonym match_row = "int \<times> int"

record store =
  players :: "player_row list"
  matches :: "match_row list"
  player_id_seq :: int

text \<open>
  What a call can raise. \<open>DatabaseError\<close> and \<open>InterfaceError\<close> are the two classes
  of psycopg2 errors, each with its message, \<open>SystemExit\<close> is what \<open>sys.exit\<close> raises,
  \<open>Exception\<close> is the builtin class with its message, \<open>IndexError\<close> is a read past the
  end of a list.
\<close>

datatype py_exn =
  DatabaseError string | InterfaceError string | SystemExit int | Exception string | IndexError

text \<open>
  Every function starts with \<open>db=None\<close> and opens its connection as the first statement
  of the \<open>try\<close> body. When a statement of the body raises, the variable \<open>db\<close> is still
  \<open>None\<close> (the connection was never made), or it holds a connection that is still open,
  or one that the failure has closed.
\<close>

datatype connection = ConnOpen | ConnClosed

text \<open>
  The store can fail at any statement of a \<open>try\<close> body (connecting, executing,
  fetching, committing). The parameter \<open>fault\<close> of every operation is that failure:
  \<open>None\<close> when every statement succeeds and the body produces its value, \<open>Some f\<close> when a
  statement raises \<open>raised f\<close> while the variable \<open>db\<close> holds \<open>conn f\<close>.
\<close>

record failure =
  raised :: py_exn
  conn :: "connection option"

definition try_body :: "failure option \<Rightarrow> 'a \<Rightarrow> failure + 'a" where
  "try_body fault r = (case fault of Some f \<Rightarrow> Inl f | None \<Rightarrow> Inr r)"

text \<open>
  \<open>db.rollback()\<close>: on a closed connection psycopg2 raises
  \<open>InterfaceError("connection already closed")\<close>.
\<close>

definition rollback :: "connection \<Rightarrow> py_exn + unit" where
  "rollback c =
     (case c of ConnOpen \<Rightarrow> Inr () | ConnClosed \<Rightarrow> Inl (InterfaceError ''connection already closed''))"

text \<open>
  Every function has the same handler:
  \<^verbatim>\<open>
    except psycopg2.DatabaseError, e:
        if db:
            db.rollback()
        print 'DB error...rolled back %s' % e
        sys.exit(1)

    finally:
        if db:
            db.close()
  \<close>
  An error of another class passes the clause. For a \<open>DatabaseError\<close> the handler rolls
  back when there is a connection; an error of the rollback leaves the handler at once,
  and it is what the caller gets. Otherwise \<open>sys.exit(1)\<close> raises \<open>SystemExit(1)\<close>.
  Nothing has been committed, so the tables are as they were. The printed line is not
  part of the model, and neither is \<open>db.close()\<close>, which psycopg2 accepts on a closed
  connection too.
\<close>

definition except_DatabaseError :: "failure + 'a \<Rightarrow> py_exn + 'a" where
  "except_DatabaseError r =
     (case r of
        Inr v \<Rightarrow> Inr v
      | Inl f \<Rightarrow>
         (case raised f of
            DatabaseError e \<Rightarrow>
              (case conn f of
                 None \<Rightarrow> Inl (SystemExit 1)
               | Some db \<Rightarrow>
                  (case rollback db of
                     Inl x \<Rightarrow> Inl x
                   | Inr u \<Rightarrow> Inl (SystemExit 1)))
          | x \<Rightarrow> Inl x))"

text \<open>
  \<open>db_transact(query)\<close>: connect, execute, commit. The statement is given by its effect
  on the tables. The source returns the (closed) connection, which no caller uses; the
  model returns the store after the commit.
\<close>

definition db_transact :: "failure option \<Rightarrow> (store \<Rightarrow> store) \<Rightarrow> store \<Rightarrow> py_exn + store" where
  "db_transact fault query db = except_DatabaseError (try_body fault (query db))"

text \<open>\<open>DELETE FROM matches\<close>\<close>

definition deleteMatches :: "failure option \<Rightarrow> store \<Rightarrow> py_exn + store" where
  "deleteMatches fault db = db_transact fault (\<lambda>d. d\<lparr>matches := []\<rparr>) db"

text \<open>\<open>DELETE FROM players\<close>\<close>

definition deletePlayers :: "failure option \<Rightarrow> store \<Rightarrow> py_exn + store" where
  "deletePlayers fault db = db_transact fault (\<lambda>d. d\<lparr>players := []\<rparr>) db"


text \<open>
  \<open>registerPlayer(name)\<close>: the name goes through \<open>bleach.clean\<close>, a library function
  taken here as the parameter \<open>clean\<close>, and is inserted with the next serial id.
\<close>

definition registerPlayer :: "(string \<Rightarrow> string) \<Rightarrow> failure option \<Rightarrow> string \<Rightarrow> store \<Rightarrow> py_exn + store" where
  "registerPlayer clean fault name db =
     except_DatabaseError (try_body fault
       (db\<lparr>players := players db @ [(player_id_seq db, clean name)],
           player_id_seq := player_id_seq db + 1\<rparr>))"

text \<open>
  \<open>INSERT INTO matches (win_player_id, lose_player_id) VALUES (winner, loser)\<close>. The
  function checks neither id; whether the store refuses a row (a \<open>fault\<close>) is the
  schema's matter.
\<close>

definition reportMatch :: "failure option \<Rightarrow> int \<Rightarrow> int \<Rightarrow> store \<Rightarrow> py_exn + store" where
  "reportMatch fault winner loser db =
     except_DatabaseError (try_body fault (db\<lparr>matches := matches db @ [(winner, loser)]\<rparr>))"

section \<open>The standings query\<close>

text \<open>
  \<open>A FULL OUTER JOIN B ON c\<close>: every pair of rows that satisfies \<open>c\<close>, every row of \<open>A\<close>
  without a partner (the columns of \<open>B\<close> are NULL), and every row of \<open>B\<close> without a
  partner (the columns of \<open>A\<close> are NULL). A missing side is \<open>None\<close>.
\<close>

definition full_outer_join :: "'a list \<Rightarrow> 'b list \<Rightarrow> ('a \<Rightarrow> 'b \<Rightarrow> bool) \<Rightarrow> ('a option \<times> 'b option) list" where
  "full_outer_join ls rs on =
     concat (map (\<lambda>l. if filter (on l) rs = [] then [(Some l, None)]
                       else map (\<lambda>r. (Some l, Some r)) (filter (on l) rs)) ls)
     @ map (\<lambda>r. (None, Some r)) (filter (\<lambda>r. \<not> (\<exists>l \<in> set ls. on l r)) rs)"

text \<open>\<open>COALESCE(a, b)\<close> of two columns, and \<open>COALESCE(a, 0)\<close>.\<close>

definition COALESCE :: "'a option \<Rightarrow> 'a option \<Rightarrow> 'a option" where
  "COALESCE a b = (case a of Some v \<Rightarrow> Some v | None \<Rightarrow> b)"

definition COALESCE0 :: "int option \<Rightarrow> int" where
  "COALESCE0 a = (case a of Some v \<Rightarrow> v | None \<Rightarrow> 0)"

text \<open>
  Modelled from the spec: the views \<open>winners (win_player_id, wins)\<close> and
  \<open>losers (lose_player_id, loss)\<close> are created by the schema file, which is not among the
  sources. The query names their columns, the source says of them that they ``group
  winners and losers from MATCHES table'', and the spec that the calculator counts, for
  each player, the appearances as winner and the appearances as loser. So \<open>winners\<close> has
  one row for each id that occurs as a winner, with the number of matches it won, and
  \<open>losers\<close> one row for each id that occurs as a loser, with the number it lost.
\<close>

definition winners :: "store \<Rightarrow> (int \<times> int) list" where
  "winners db =
     map (\<lambda>p. (p, int (length (filter (\<lambda>m. fst m = p) (matches db)))))
         (remdups (map fst (matches db)))"

definition losers :: "store \<Rightarrow> (int \<times> int) list" where
  "losers db =
     map (\<lambda>p. (p, int (length (filter (\<lambda>m. snd m = p) (matches db)))))
         (remdups (map snd (matches db)))"

text \<open>
  The common table expression of the query:
  \<^verbatim>\<open>
    WITH player_standing AS (
      SELECT COALESCE(win_player_id, lose_player_id) player_id,
             COALESCE(wins,0) wins, COALESCE(loss,0) loss,
             COALESCE(wins,0)+COALESCE(loss,0) total
      from winners FULL OUTER JOIN losers on win_player_id = lose_player_id )
  \<close>
  Its rows are \<open>(player_id, wins, loss, total)\<close>.
\<close>

type_synonym player_standing_row = "int option \<times> int \<times> int \<times> int"

definition player_standing :: "store \<Rightarrow> player_standing_row list" where
  "player_standing db =
     map (\<lambda>(w, l).
            (COALESCE (map_option fst w) (map_option fst l),
             COALESCE0 (map_option snd w),
             COALESCE0 (map_option snd l),
             COALESCE0 (map_option snd w) + COALESCE0 (map_option snd l)))
         (full_outer_join (winners db) (losers db) (\<lambda>w l. fst w = fst l))"

text \<open>
  The query itself:
  \<^verbatim>\<open>
    SELECT players.player_id, player_name, COALESCE(wins,0) matches_won,
           COALESCE(total,0) total_matches
    FROM players FULL OUTER JOIN player_standing
         ON players.player_id = player_standing.player_id;
  \<close>
  A row of the result is \<open>(player_id, player_name, matches_won, total_matches)\<close>; the
  first two columns are NULL in a row that comes from \<open>player_standing\<close> alone. The
  comparison of the \<open>ON\<close> clause is not true when one side is NULL.
\<close>

type_synonym standing = "int option \<times> string option \<times> int \<times> int"

definition plyr_stnd_q :: "store \<Rightarrow> standing list" where
  "plyr_stnd_q db =
     map (\<lambda>(p, s).
            (map_option fst p,
             map_option snd p,
             COALESCE0 (map_option (\<lambda>(i, w, l, t). w) s),
             COALESCE0 (map_option (\<lambda>(i, w, l, t). t) s)))
         (full_outer_join (players db) (player_standing db)
            (\<lambda>p (i, w, l, t). Some (fst p) = i))"

text \<open>
  The query has no \<open>ORDER BY\<close>, so the order in which \<open>cur.fetchall()\<close> hands over the
  rows is the store's choice. The parameter \<open>rank\<close> is that choice: the row computed at
  position \<open>i\<close> comes back at the place its rank \<open>rank i\<close> gives it, rows of equal rank in
  the order computed. Every permutation of the rows is the result for some \<open>rank\<close>
  (\<open>fetchall_any_order\<close> below), and a constant \<open>rank\<close> keeps the rows as the joins
  above list them.
\<close>

definition fetchall :: "(nat \<Rightarrow> nat) \<Rightarrow> 'a list \<Rightarrow> 'a list" where
  "fetchall rank rows = map (\<lambda>i. rows ! i) (sort_key rank [0..<length rows])"

text \<open>
  \<open>playerStandings()\<close>: connect, execute the query, fetch all rows and return them as a
  list (the comprehension \<open>[row for row in rows]\<close> copies the list).
\<close>

definition playerStandings :: "(nat \<Rightarrow> nat) \<Rightarrow> failure option \<Rightarrow> store \<Rightarrow> py_exn + standing list" where
  "playerStandings rank fault db =
     except_DatabaseError (try_body fault (fetchall rank (plyr_stnd_q db)))"

section \<open>Pairing\<close>

text \<open>\<open>xs[i]\<close> for a non-negative index.\<close>

definition getitem :: "'a list \<Rightarrow> nat \<Rightarrow> py_exn + 'a" where
  "getitem xs i = (if i < length xs then Inr (xs ! i) else Inl IndexError)"

text \<open>\<open>xrange(start, stop, step)\<close> for a positive step.\<close>

definition xrange :: "nat \<Rightarrow> nat \<Rightarrow> nat \<Rightarrow> nat list" where
  "xrange start stop step =
     map (\<lambda>k. start + k * step) [0..<(stop - start + (step - 1)) div step]"

type_synonym pairing = "int option \<times> string option \<times> int option \<times> string option"

text \<open>
  The comprehension
  \<^verbatim>\<open>
    [(standings[i][0],standings[i][1],standings[i+1][0],standings[i+1][1])
       for i in xrange(0,len(standings),2)]
  \<close>
  over the list of indices.
\<close>

fun pair_result :: "standing list \<Rightarrow> nat list \<Rightarrow> py_exn + pairing list" where
  "pair_result standings [] = Inr []"
| "pair_result standings (i # is) =
     (case getitem standings i of
        Inl e \<Rightarrow> Inl e
      | Inr a \<Rightarrow>
         (case getitem standings (i + 1) of
            Inl e \<Rightarrow> Inl e
          | Inr b \<Rightarrow>
             (case pair_result standings is of
                Inl e \<Rightarrow> Inl e
              | Inr ps \<Rightarrow> Inr ((fst a, fst (snd a), fst b, fst (snd b)) # ps))))"

definition swissPairings :: "(nat \<Rightarrow> nat) \<Rightarrow> failure option \<Rightarrow> store \<Rightarrow> py_exn + pairing list" where
  "swissPairings rank fault db =
     (case playerStandings rank fault db of
        Inl e \<Rightarrow> Inl e
      | Inr standings \<Rightarrow>
          if length standings mod 2 \<noteq> 0
          then Inl (Exception ''Need even number of players for pairing.'')
          else pair_result standings (xrange 0 (length standings) 2))"

section \<open>Notions used in the statements\<close>

text \<open>
  The number of recorded matches that player \<open>p\<close> won, and the number \<open>p\<close> lost: the
  appearances of \<open>p\<close> as \<open>win_player_id\<close> and as \<open>lose_player_id\<close>.
\<close>

definition won :: "store \<Rightarrow> int \<Rightarrow> int" where
  "won db p = int (length (filter (\<lambda>m. fst m = p) (matches db)))"

definition lost :: "store \<Rightarrow> int \<Rightarrow> int" where
  "lost db p = int (length (filter (\<lambda>m. snd m = p) (matches db)))"

text \<open>
  The ids that occur in some match, each once: the winners, then the losers that never
  won. This is the order in which \<open>player_standing\<close> lists them.
\<close>

definition match_ids :: "store \<Rightarrow> int list" where
  "match_ids db =
     remdups (map fst (matches db))
     @ filter (\<lambda>p. p \<notin> fst ` set (matches db)) (remdups (map snd (matches db)))"

text \<open>
  The row of the query for a row of \<open>players\<close>, and the row for an id that occurs in a
  match and in no row of \<open>players\<close> (the outer join keeps it, with NULL for the id and
  the name).
\<close>

definition player_entry :: "store \<Rightarrow> player_row \<Rightarrow> standing" where
  "player_entry db p =
     (Some (fst p), Some (snd p), won db (fst p), won db (fst p) + lost db (fst p))"

definition orphan_entry :: "store \<Rightarrow> int \<Rightarrow> standing" where
  "orphan_entry db i = (None, None, won db i, won db i + lost db i)"

definition orphan_ids :: "store \<Rightarrow> int list" where
  "orphan_ids db = filter (\<lambda>i. i \<notin> fst ` set (players db)) (match_ids db)"


text \<open>
  The serial counter numbers the players: the ids in the table are pairwise different
  and below the counter.
\<close>

definition serial_ok :: "store \<Rightarrow> bool" where
  "serial_ok db =
     (distinct (map fst (players db)) \<and> (\<forall>p \<in> set (players db). fst p < player_id_seq db))"

text \<open>
  The place of \<open>i\<close> in a list of indices: as a rank, it makes the store hand over the
  rows in the order of that list.
\<close>

definition position :: "nat list \<Rightarrow> nat \<Rightarrow> nat" where
  "position ks i = length (takeWhile (\<lambda>x. x \<noteq> i) ks)"

text \<open>The tuple the comprehension of \<open>swissPairings\<close> builds from two rows.\<close>

definition pair_of :: "standing \<Rightarrow> standing \<Rightarrow> pairing" where
  "pair_of a b = (fst a, fst (snd a), fst b, fst (snd b))"

text \<open>
  One call after another: the second call runs on the store the first has left, and
  not at all when the first has raised. \<open>empty_store\<close> is the store of a fresh database.
\<close>

definition and_then :: "py_exn + 'a \<Rightarrow> ('a \<Rightarrow> py_exn + 'b) \<Rightarrow> py_exn + 'b" where
  "and_then r f = (case r of Inl e \<Rightarrow> Inl e | Inr x \<Rightarrow> f x)"

definition empty_store :: store where
  "empty_store = \<lparr>players = [], matches = [], player_id_seq = 1\<rparr>"

text \<open>
  Stores for the examples. \<open>round_one\<close>: the players A, B, C, D with the ids 1 to 4, and
  the matches 1 beats 2 and 3 beats 4. \<open>stray_match\<close>: the same after
  \<open>reportMatch(1, 99)\<close>, where 99 is the id of no player. \<open>three_players\<close>: three players and no match.
  \<open>late_entry\<close>: B has beaten A twice, and C has registered after that.
\<close>

definition round_one :: store where
  "round_one =
     \<lparr>players = [(1, ''A''), (2, ''B''), (3, ''C''), (4, ''D'')],
      matches = [(1, 2), (3, 4)],
      player_id_seq = 5\<rparr>"


definition three_players :: store where
  "three_players =
     \<lparr>players = [(1, ''A''), (2, ''B''), (3, ''C'')], matches = [], player_id_seq = 4\<rparr>"

definition late_entry :: store where
  "late_entry =
     \<lparr>players = [(1, ''A''), (2, ''B''), (3, ''C'')],
      matches = [(2, 1), (2, 1)],
      player_id_seq = 4\<rparr>"

section \<open>The rows of the query\<close>

text \<open>
  A join on a key that identifies the rows of its right side: each row of the left side
  has at most one partner.
\<close>

lemma filter_key_distinct:
  "distinct (map kr rs) \<Longrightarrow>
   filter (\<lambda>r. k = kr r) rs = (case find (\<lambda>r. k = kr r) rs of None \<Rightarrow> [] | Some r \<Rightarrow> [r])"
proof (induction rs)
  case Nil
  then show ?case by simp
next
  case (Cons r rs)
  show ?case
  proof (cases "k = kr r")
    case True
    with Cons.prems have "filter (\<lambda>r. k = kr r) rs = []"
      by (auto simp: filter_empty_conv)
    with True show ?thesis by simp
  next
    case False
    with Cons show ?thesis by simp
  qed
qed

lemma full_outer_join_key:
  assumes "distinct (map kr rs)"
  shows "full_outer_join ls rs (\<lambda>l r. kl l = kr r) =
         map (\<lambda>l. (Some l, find (\<lambda>r. kl l = kr r) rs)) ls
         @ map (\<lambda>r. (None, Some r)) (filter (\<lambda>r. kr r \<notin> kl ` set ls) rs)"
proof -
  have one: "(if filter (\<lambda>r. kl l = kr r) rs = [] then [(Some l, None)]
              else map (\<lambda>r. (Some l, Some r)) (filter (\<lambda>r. kl l = kr r) rs))
             = [(Some l, find (\<lambda>r. kl l = kr r) rs)]" for l
    by (simp add: filter_key_distinct [OF assms] split: option.split)
  have unmatched: "(\<lambda>r. \<not> (\<exists>l \<in> set ls. kl l = kr r)) = (\<lambda>r. kr r \<notin> kl ` set ls)"
    by (auto simp: fun_eq_iff image_iff)
  show ?thesis
    unfolding full_outer_join_def one unmatched by (induction ls) simp_all
qed

lemma find_tabulate:
  "find (\<lambda>r. k = fst r) (map (\<lambda>p. (p, c p)) xs) = (if k \<in> set xs then Some (k, c k) else None)"
  by (induction xs) auto

lemma find_standing:
  "find (\<lambda>r. Some k = fst r) (map (\<lambda>p. (Some p, c p)) xs) =
     (if k \<in> set xs then Some (Some k, c k) else None)"
  by (induction xs) auto

lemma won_zero: "p \<notin> fst ` set (matches db) \<Longrightarrow> won db p = 0"
  by (auto simp: won_def filter_empty_conv)

lemma lost_zero: "p \<notin> snd ` set (matches db) \<Longrightarrow> lost db p = 0"
  by (auto simp: lost_def filter_empty_conv)

lemma distinct_match_ids: "distinct (match_ids db)"
  by (auto simp: match_ids_def)

lemma set_match_ids: "set (match_ids db) = fst ` set (matches db) \<union> snd ` set (matches db)"
  by (auto simp: match_ids_def)

text \<open>The common table expression has one row for each id that occurs in a match.\<close>

lemma player_standing_rows:
  "player_standing db =
     map (\<lambda>p. (Some p, won db p, lost db p, won db p + lost db p)) (match_ids db)"
proof -
  have d: "distinct (map fst (losers db))"
    by (simp add: losers_def comp_def)
  have w: "winners db = map (\<lambda>p. (p, won db p)) (remdups (map fst (matches db)))"
    by (simp add: winners_def won_def)
  have l: "losers db = map (\<lambda>p. (p, lost db p)) (remdups (map snd (matches db)))"
    by (simp add: losers_def lost_def)
  have "full_outer_join (winners db) (losers db) (\<lambda>w l. fst w = fst l) =
        map (\<lambda>l. (Some l, find (\<lambda>r. fst l = fst r) (losers db))) (winners db)
         @ map (\<lambda>r. (None, Some r)) (filter (\<lambda>r. fst r \<notin> fst ` set (winners db)) (losers db))"
    by (rule full_outer_join_key [OF d])
  then show ?thesis
    unfolding player_standing_def match_ids_def
    apply (simp add: w l find_tabulate comp_def filter_map COALESCE_def COALESCE0_def image_image)
    apply (auto simp: lost_zero won_zero)
    done
qed

text \<open>
  The query has one row for each row of \<open>players\<close>, in the order of the table, followed
  by one row for each id of a match that no row of \<open>players\<close> has.
\<close>

lemma plyr_stnd_q_rows:
  "plyr_stnd_q db = map (player_entry db) (players db) @ map (orphan_entry db) (orphan_ids db)"
proof -
  have on: "(\<lambda>p (i, w, l, t). Some (fst p) = i) =
            (\<lambda>(p::player_row) (r::player_standing_row). Some (fst p) = fst r)"
    by (simp add: fun_eq_iff)
  have d: "distinct (map fst (player_standing db))"
    by (simp add: player_standing_rows comp_def distinct_map distinct_match_ids)
  have zero: "i \<notin> set (match_ids db) \<Longrightarrow> won db i = 0 \<and> lost db i = 0" for i
    by (simp add: set_match_ids won_zero lost_zero)
  have "full_outer_join (players db) (player_standing db) (\<lambda>p r. Some (fst p) = fst r) =
        map (\<lambda>l. (Some l, find (\<lambda>r. Some (fst l) = fst r) (player_standing db))) (players db)
        @ map (\<lambda>r. (None, Some r))
            (filter (\<lambda>r. fst r \<notin> (\<lambda>p. Some (fst p)) ` set (players db)) (player_standing db))"
    by (rule full_outer_join_key [OF d])
  then show ?thesis
    unfolding plyr_stnd_q_def on orphan_ids_def
    apply (simp add: player_standing_rows find_standing comp_def filter_map COALESCE0_def image_image)
    apply (auto simp: player_entry_def orphan_entry_def zero image_iff)
    done
qed

lemma length_plyr_stnd_q:
  "length (plyr_stnd_q db) = length (players db) + length (orphan_ids db)"
  by (simp add: plyr_stnd_q_rows)

subsection \<open>What the store's order leaves unchanged\<close>

lemma mset_fetchall: "mset (fetchall rank rows) = mset rows"
proof -
  have "mset (fetchall rank rows) =
        image_mset (\<lambda>i. rows ! i) (mset (sort_key rank [0..<length rows]))"
    by (simp add: fetchall_def)
  also have "\<dots> = mset (map (\<lambda>i. rows ! i) [0..<length rows])"
    by simp
  also have "\<dots> = mset rows"
    by (simp add: map_nth)
  finally show ?thesis .
qed

lemma set_fetchall: "set (fetchall rank rows) = set rows"
  using mset_fetchall [of rank rows] by (metis set_mset_mset)

lemma length_fetchall: "length (fetchall rank rows) = length rows"
  by (simp add: fetchall_def)

lemma fetchall_const: "fetchall (\<lambda>_. c) rows = rows"
  by (simp add: fetchall_def sort_key_const map_nth)

lemma sum_list_fetchall:
  "sum_list (map f (fetchall rank rows)) = sum_list (map (f :: 'a \<Rightarrow> int) rows)"
proof -
  have "sum_list (map f (fetchall rank rows)) = sum_mset (image_mset f (mset (fetchall rank rows)))"
    by (metis mset_map sum_mset_sum_list)
  also have "\<dots> = sum_mset (image_mset f (mset rows))"
    by (simp add: mset_fetchall)
  also have "\<dots> = sum_list (map f rows)"
    by (metis mset_map sum_mset_sum_list)
  finally show ?thesis .
qed

lemma length_filter_fetchall: "length (filter P (fetchall rank rows)) = length (filter P rows)"
proof -
  have "length (filter P (fetchall rank rows)) = size (filter_mset P (mset (fetchall rank rows)))"
    by (metis mset_filter size_mset)
  also have "\<dots> = size (filter_mset P (mset rows))"
    by (simp add: mset_fetchall)
  also have "\<dots> = length (filter P rows)"
    by (metis mset_filter size_mset)
  finally show ?thesis .
qed

subsection \<open>Every order is the order of some store\<close>

lemma position_nth: "distinct ks \<Longrightarrow> k < length ks \<Longrightarrow> position ks (ks ! k) = k"
proof -
  assume d: "distinct ks" and k: "k < length ks"
  have "takeWhile (\<lambda>x. x \<noteq> ks ! k) ks = take k ks"
    using d k by (intro takeWhile_eq_take_P_nth) (auto simp: nth_eq_iff_index_eq)
  with k show ?thesis by (simp add: position_def)
qed

lemma map_position: "distinct ks \<Longrightarrow> map (position ks) ks = [0..<length ks]"
  by (rule nth_equalityI) (simp_all add: position_nth)

lemma filter_single:
  "distinct xs \<Longrightarrow> k \<in> set xs \<Longrightarrow> (\<And>x. x \<in> set xs \<Longrightarrow> P x \<longleftrightarrow> x = k) \<Longrightarrow> filter P xs = [k]"
proof (induction xs)
  case Nil
  then show ?case by simp
next
  case (Cons x xs)
  show ?case
  proof (cases "x = k")
    case True
    with Cons.prems have "filter P xs = []"
      by (auto simp: filter_empty_conv)
    with True Cons.prems show ?thesis by simp
  next
    case False
    with Cons show ?thesis by auto
  qed
qed

lemma sort_key_position:
  assumes "mset ks = mset [0..<n]"
  shows "sort_key (position ks) [0..<n] = ks"
proof (rule properties_for_sort_key)
  show "mset ks = mset [0..<n]" by (rule assms)
  have d: "distinct ks"
    using assms by (metis distinct_upt mset_eq_imp_distinct_iff)
  have s: "set ks = {0..<n}"
    using assms by (metis mset_eq_setD set_upt)
  have len: "length ks = n"
    using assms by (metis length_upt mset_eq_length minus_nat.diff_0)
  show "sorted (map (position ks) ks)"
    by (simp add: map_position [OF d])
  fix k assume k: "k \<in> set ks"
  have inj: "position ks k = position ks x \<longleftrightarrow> x = k" if "x \<in> set ks" for x
    using that k d by (metis in_set_conv_nth position_nth)
  have "filter (\<lambda>x. position ks k = position ks x) ks = [k]"
    using d k inj by (intro filter_single) auto
  moreover have "filter (\<lambda>x. position ks k = position ks x) [0..<n] = [k]"
    using k inj s by (intro filter_single) auto
  ultimately show "filter (\<lambda>x. position ks k = position ks x) ks =
                   filter (\<lambda>x. position ks k = position ks x) [0..<n]"
    by simp
qed

lemma indices_of_permutation:
  "mset ys = mset rows \<Longrightarrow> \<exists>ks. mset ks = mset [0..<length rows] \<and> map (\<lambda>i. rows ! i) ks = ys"
proof (induction rows arbitrary: ys)
  case Nil
  then show ?case by simp
next
  case (Cons r rows)
  then have "r \<in> set ys"
    by (metis list.set_intros(1) mset_eq_setD)
  then obtain as bs where ys: "ys = as @ r # bs"
    by (auto dest: split_list)
  with Cons.prems have "mset (as @ bs) = mset rows" by simp
  from Cons.IH [OF this] obtain js
    where js: "mset js = mset [0..<length rows]" "map (\<lambda>i. rows ! i) js = as @ bs"
    by blast
  define ks where "ks = map Suc (take (length as) js) @ 0 # map Suc (drop (length as) js)"
  have split: "mset (take (length as) js) + mset (drop (length as) js) = mset js"
    by (metis append_take_drop_id mset_append)
  have "mset ks =
        add_mset 0 (image_mset Suc (mset (take (length as) js) + mset (drop (length as) js)))"
    by (simp add: ks_def)
  also have "\<dots> = add_mset 0 (image_mset Suc (mset [0..<length rows]))"
    by (simp only: split js(1))
  also have "\<dots> = mset (0 # map Suc [0..<length rows])"
    by simp
  also have "\<dots> = mset [0..<length (r # rows)]"
    by (simp add: map_Suc_upt upt_conv_Cons del: upt_Suc)
  finally have m: "mset ks = mset [0..<length (r # rows)]" .
  have "map (\<lambda>i. (r # rows) ! i) ks =
        take (length as) (map (\<lambda>i. rows ! i) js) @ r # drop (length as) (map (\<lambda>i. rows ! i) js)"
    by (simp add: ks_def comp_def take_map drop_map)
  also have "\<dots> = ys"
    by (simp add: js(2) ys)
  finally show ?case using m by blast
qed

lemma fetchall_any_order:
  assumes "mset ys = mset rows"
  shows "\<exists>rank. fetchall rank rows = ys"
proof -
  from indices_of_permutation [OF assms] obtain ks
    where "mset ks = mset [0..<length rows]" "map (\<lambda>i. rows ! i) ks = ys"
    by blast
  then have "fetchall (position ks) rows = ys"
    by (simp add: fetchall_def sort_key_position)
  then show ?thesis by blast
qed

subsection \<open>The two outcomes of a call\<close>

lemma except_DatabaseError_Inl: "except_DatabaseError (Inl f) \<noteq> Inr v"
  by (simp add: except_DatabaseError_def split: py_exn.split option.split sum.split)

text \<open>A call returns a value only when no statement of its body has failed.\<close>

lemma guarded_Inr:
  "except_DatabaseError (try_body fault r) = Inr v \<longleftrightarrow> fault = None \<and> v = r"
proof (cases fault)
  case None
  then show ?thesis by (auto simp: try_body_def except_DatabaseError_def)
next
  case (Some f)
  then show ?thesis by (simp add: try_body_def except_DatabaseError_Inl)
qed


lemma playerStandings_ok: "playerStandings rank None db = Inr (fetchall rank (plyr_stnd_q db))"
  by (simp add: playerStandings_def try_body_def except_DatabaseError_def)

lemma playerStandings_Inr:
  "playerStandings rank fault db = Inr st \<longleftrightarrow> fault = None \<and> st = fetchall rank (plyr_stnd_q db)"
  by (simp add: playerStandings_def guarded_Inr)


lemma playerStandings_any_order:
  "mset ys = mset (plyr_stnd_q db) \<Longrightarrow> \<exists>rank. playerStandings rank None db = Inr ys"
  using fetchall_any_order [of ys "plyr_stnd_q db"] by (simp add: playerStandings_ok)

text \<open>
  In general the standings have one entry more than \<open>countPlayers\<close> reports for every id
  that a match names and no player has.
\<close>

lemma length_playerStandings:
  "playerStandings rank fault db = Inr st \<Longrightarrow>
   length st = length (players db) + length (orphan_ids db)"
  by (simp add: playerStandings_Inr length_fetchall length_plyr_stnd_q)



subsection \<open>The serial ids\<close>

text \<open>Every operation keeps the ids of the players pairwise different.\<close>

lemma serial_ok_registerPlayer:
  "serial_ok db \<Longrightarrow> registerPlayer clean fault name db = Inr db' \<Longrightarrow> serial_ok db'"
  by (fastforce simp: registerPlayer_def guarded_Inr serial_ok_def)

lemma serial_ok_reportMatch:
  "serial_ok db \<Longrightarrow> reportMatch fault winner loser db = Inr db' \<Longrightarrow> serial_ok db'"
  by (fastforce simp: reportMatch_def guarded_Inr serial_ok_def)

lemma serial_ok_deleteMatches:
  "serial_ok db \<Longrightarrow> deleteMatches fault db = Inr db' \<Longrightarrow> serial_ok db'"
  by (fastforce simp: deleteMatches_def db_transact_def guarded_Inr serial_ok_def)

lemma serial_ok_deletePlayers:
  "serial_ok db \<Longrightarrow> deletePlayers fault db = Inr db' \<Longrightarrow> serial_ok db'"
  by (fastforce simp: deletePlayers_def db_transact_def guarded_Inr serial_ok_def)

section \<open>Pairing the standings\<close>

lemma pair_result_map:
  "\<forall>i \<in> set is. i + 1 < length st \<Longrightarrow>
   pair_result st is = Inr (map (\<lambda>i. pair_of (st ! i) (st ! (i + 1))) is)"
  by (induction "is") (simp_all add: getitem_def pair_of_def)

lemma xrange_two: "even n \<Longrightarrow> xrange 0 n 2 = map (\<lambda>k. 2 * k) [0..<n div 2]"
  by (auto simp: xrange_def mult.commute elim!: evenE)

text \<open>On a list of even length no read of the comprehension is out of range.\<close>

lemma pair_result_even:
  assumes "even (length st)"
  shows "pair_result st (xrange 0 (length st) 2) =
         Inr (map (\<lambda>k. pair_of (st ! (2 * k)) (st ! (2 * k + 1))) [0..<length st div 2])"
proof -
  have "\<forall>i \<in> set (xrange 0 (length st) 2). i + 1 < length st"
    using assms by (auto simp: xrange_two elim!: evenE)
  then show ?thesis
    by (simp add: pair_result_map xrange_two [OF assms] comp_def)
qed

lemma swissPairings_even:
  assumes "playerStandings rank fault db = Inr st" and "even (length st)"
  shows "swissPairings rank fault db =
         Inr (map (\<lambda>k. pair_of (st ! (2 * k)) (st ! (2 * k + 1))) [0..<length st div 2])"
  using assms by (simp add: swissPairings_def pair_result_even even_iff_mod_2_eq_zero)

lemma swissPairings_odd:
  assumes "playerStandings rank fault db = Inr st" and "odd (length st)"
  shows "swissPairings rank fault db = Inl (Exception ''Need even number of players for pairing.'')"
  using assms by (simp add: swissPairings_def odd_iff_mod_2_eq_one)

subsection \<open>Counting\<close>

lemma won_count: "won db p = int (count_list (map fst (matches db)) p)"
  by (simp add: won_def count_list_eq_length_filter length_filter_map comp_def eq_commute)

lemma sum_won:
  assumes "distinct xs" and "fst ` set (matches db) \<subseteq> set xs"
  shows "sum_list (map (won db) xs) = int (length (matches db))"
proof -
  have "sum_list (map (won db) xs) = sum (won db) (set xs)"
    using assms(1) by (simp add: sum_list_distinct_conv_sum_set)
  also have "\<dots> = int (sum (count_list (map fst (matches db))) (set xs))"
    by (simp add: won_count)
  also have "\<dots> = int (length (map fst (matches db)))"
    using assms(2) by (subst sum_count_set) auto
  finally show ?thesis by simp
qed

lemma filter_key_le_one: "distinct (map f xs) \<Longrightarrow> length (filter (\<lambda>x. f x = y) xs) \<le> 1"
  by (induction xs) (auto simp: filter_empty_conv image_iff)

lemma filter_le_one_index:
  "length (filter P xs) \<le> 1 \<Longrightarrow> j < length xs \<Longrightarrow> k < length xs \<Longrightarrow> P (xs ! j) \<Longrightarrow> P (xs ! k)
   \<Longrightarrow> j = k"
proof (induction xs arbitrary: j k)
  case Nil
  then show ?case by simp
next
  case (Cons x xs)
  show ?case
  proof (cases j; cases k)
    fix j' k' assume jk: "j = Suc j'" "k = Suc k'"
    have "length (filter P xs) \<le> 1"
      using Cons.prems(1) by (simp split: if_splits)
    with Cons.IH [of j' k'] Cons.prems jk show ?thesis by simp
  next
    fix k' assume jk: "j = 0" "k = Suc k'"
    with Cons.prems have "P x" and "xs ! k' \<in> set xs" and "P (xs ! k')" by simp_all
    then have "filter P xs \<noteq> []" by (auto simp: filter_empty_conv)
    with \<open>P x\<close> Cons.prems(1) show ?thesis by (cases "filter P xs") simp_all
  next
    fix j' assume jk: "j = Suc j'" "k = 0"
    with Cons.prems have "P x" and "xs ! j' \<in> set xs" and "P (xs ! j')" by simp_all
    then have "filter P xs \<noteq> []" by (auto simp: filter_empty_conv)
    with \<open>P x\<close> Cons.prems(1) show ?thesis by (cases "filter P xs") simp_all
  qed simp
qed

text \<open>With pairwise different ids in \<open>players\<close>, no id has two rows in the query.\<close>

lemma player_id_once:
  assumes "distinct (map fst (players db))"
  shows "length (filter (\<lambda>r. fst r = Some p) (plyr_stnd_q db)) \<le> 1"
proof -
  have "filter (\<lambda>r. fst r = Some p) (plyr_stnd_q db) =
        map (player_entry db) (filter (\<lambda>q. fst q = p) (players db))"
    by (simp add: plyr_stnd_q_rows filter_map comp_def player_entry_def orphan_entry_def)
  then show ?thesis
    using filter_key_le_one [OF assms, of p] by simp
qed

subsection \<open>The examples, evaluated\<close>

text \<open>The store \<open>round_one\<close> is what six calls leave of a fresh database.\<close>

lemma round_one_reached:
  "and_then (and_then (and_then (and_then (and_then
     (registerPlayer (\<lambda>n. n) None ''A'' empty_store)
     (registerPlayer (\<lambda>n. n) None ''B''))
     (registerPlayer (\<lambda>n. n) None ''C''))
     (registerPlayer (\<lambda>n. n) None ''D''))
     (reportMatch None 1 2))
     (reportMatch None 3 4)
   = Inr round_one"
  by (simp add: and_then_def registerPlayer_def reportMatch_def try_body_def
      except_DatabaseError_def empty_store_def round_one_def)

lemma round_one_table_order:
  "playerStandings (\<lambda>_. 0) None round_one =
     Inr [(Some 1, Some ''A'', 1, 1), (Some 2, Some ''B'', 0, 1),
          (Some 3, Some ''C'', 1, 1), (Some 4, Some ''D'', 0, 1)]"
  by code_simp

lemma round_one_winners_first:
  "playerStandings (\<lambda>i. i mod 2) None round_one =
     Inr [(Some 1, Some ''A'', 1, 1), (Some 3, Some ''C'', 1, 1),
          (Some 2, Some ''B'', 0, 1), (Some 4, Some ''D'', 0, 1)]"
  by code_simp


lemma late_entry_table_order:
  "playerStandings (\<lambda>_. 0) None late_entry =
     Inr [(Some 1, Some ''A'', 0, 2), (Some 2, Some ''B'', 2, 2), (Some 3, Some ''C'', 0, 0)]"
  by code_simp

lemma three_players_table_order:
  "playerStandings (\<lambda>_. 0) None three_players =
     Inr [(Some 1, Some ''A'', 0, 0), (Some 2, Some ''B'', 0, 0), (Some 3, Some ''C'', 0, 0)]"
  by code_simp

section \<open>The claims\<close>

text \<open>
  C1: the list returned by \<open>playerStandings\<close> is sorted by wins descending, ties in
  registration order. The docstring of the function promises a list ``sorted by wins'',
  with the player in first place as its first entry, but the query has no \<open>ORDER BY\<close>
  and the function returns the rows as they are fetched. After the first round of four
  players, a store that hands over the rows in the order of the table \<open>players\<close>
  returns B, who lost, before C, who won: the list is not sorted by wins.
\<close>

theorem playerStandings_unsorted:
  "playerStandings (\<lambda>_. 0) None round_one =
     Inr [(Some 1, Some ''A'', 1, 1), (Some 2, Some ''B'', 0, 1),
          (Some 3, Some ''C'', 1, 1), (Some 4, Some ''D'', 0, 1)]
   \<and> \<not> sorted_wrt (\<lambda>a b. fst (snd (snd b)) \<le> fst (snd (snd a)))
         ([(Some 1, Some ''A'', 1, 1), (Some 2, Some ''B'', 0, 1),
           (Some 3, Some ''C'', 1, 1), (Some 4, Some ''D'', 0, 1)] :: standing list)"
  by (simp add: round_one_table_order)

text \<open>
  C2, as stated: \<open>swissPairings\<close> raises \<open>InvalidStateError\<close> with the message ``cannot
  pair an odd number of players'' exactly when the number of standings entries is odd.
  The source has no such class: with three players it raises the builtin \<open>Exception\<close>,
  and the message is another one.
\<close>

theorem swissPairings_message_counterexample:
  "swissPairings (\<lambda>_. 0) None three_players =
     Inl (Exception ''Need even number of players for pairing.'')
   \<and> swissPairings (\<lambda>_. 0) None three_players \<noteq>
     Inl (Exception ''cannot pair an odd number of players'')"
  by (simp add: swissPairings_odd [OF three_players_table_order])

text \<open>
  C2, amended: when the standings query succeeds with \<open>n\<close> entries, \<open>swissPairings\<close>
  raises \<open>Exception\<close> with the message ``Need even number of players for pairing.''
  if and only if \<open>n\<close> is odd, and when \<open>n\<close> is even (zero included) it returns a list of
  exactly \<open>n / 2\<close> pairs.
\<close>

theorem swissPairings_parity:
  assumes "playerStandings rank fault db = Inr st"
  shows "(swissPairings rank fault db = Inl (Exception ''Need even number of players for pairing.'')
            \<longleftrightarrow> odd (length st))
         \<and> (even (length st) \<longrightarrow>
              (\<exists>ps. swissPairings rank fault db = Inr ps \<and> length ps = length st div 2))"
proof (cases "even (length st)")
  case True
  then show ?thesis by (simp add: swissPairings_even [OF assms])
next
  case False
  then show ?thesis by (simp add: swissPairings_odd [OF assms])
qed

theorem swissPairings_parity_witness:
  "playerStandings (\<lambda>_. 0) None three_players =
     Inr [(Some 1, Some ''A'', 0, 0), (Some 2, Some ''B'', 0, 0), (Some 3, Some ''C'', 0, 0)]
   \<and> swissPairings (\<lambda>_. 0) None three_players =
     Inl (Exception ''Need even number of players for pairing.'')
   \<and> playerStandings (\<lambda>_. 0) None round_one =
     Inr [(Some 1, Some ''A'', 1, 1), (Some 2, Some ''B'', 0, 1),
          (Some 3, Some ''C'', 1, 1), (Some 4, Some ''D'', 0, 1)]
   \<and> (\<exists>ps. swissPairings (\<lambda>_. 0) None round_one = Inr ps \<and> length ps = 2)"
  using swissPairings_parity [OF three_players_table_order]
    swissPairings_parity [OF round_one_table_order]
    three_players_table_order round_one_table_order
  by auto

text \<open>
  C3: on standings of even length \<open>n\<close>, \<open>swissPairings\<close> pairs the entry at index \<open>2i\<close>
  with the entry at index \<open>2i + 1\<close> for every \<open>i\<close> from \<open>0\<close> to \<open>n / 2 - 1\<close>, the
  first-ranked member first, so every player id that occurs in the standings occurs in
  exactly one pair. The ids of the players are pairwise different, as the serial
  counter makes them.
\<close>

theorem swissPairings_adjacent:
  assumes "distinct (map fst (players db))"
    and "playerStandings rank fault db = Inr st"
    and "even (length st)"
  shows "\<exists>ps. swissPairings rank fault db = Inr ps
          \<and> length ps = length st div 2
          \<and> (\<forall>i < length st div 2.
                ps ! i = (fst (st ! (2 * i)), fst (snd (st ! (2 * i))),
                          fst (st ! (2 * i + 1)), fst (snd (st ! (2 * i + 1)))))
          \<and> (\<forall>p. Some p \<in> fst ` set st \<longrightarrow>
                (\<exists>!i. i < length ps \<and> (fst (ps ! i) = Some p \<or> fst (snd (snd (ps ! i))) = Some p)))"
proof -
  define n where "n = length st div 2"
  define ps where "ps = map (\<lambda>k. pair_of (st ! (2 * k)) (st ! (2 * k + 1))) [0..<n]"
  have ps: "swissPairings rank fault db = Inr ps"
    unfolding ps_def n_def by (rule swissPairings_even [OF assms(2,3)])
  have len: "length ps = n"
    by (simp add: ps_def)
  have nth: "ps ! i = (fst (st ! (2 * i)), fst (snd (st ! (2 * i))),
                       fst (st ! (2 * i + 1)), fst (snd (st ! (2 * i + 1))))" if "i < n" for i
    using that by (simp add: ps_def pair_of_def)
  have ids: "fst (ps ! i) = fst (st ! (2 * i))" "fst (snd (snd (ps ! i))) = fst (st ! (2 * i + 1))"
    if "i < n" for i
    using nth [OF that] by simp_all
  have bound: "2 * i < length st \<and> 2 * i + 1 < length st" if "i < n" for i
    using that assms(3) unfolding n_def by (auto elim!: evenE)
  have once: "j = k"
    if "j < length st" "k < length st" "fst (st ! j) = Some p" "fst (st ! k) = Some p"
    for j k p
  proof -
    from assms(2) have "st = fetchall rank (plyr_stnd_q db)"
      by (simp add: playerStandings_Inr)
    then have "length (filter (\<lambda>r. fst r = Some p) st) \<le> 1"
      using player_id_once [OF assms(1)] by (simp add: length_filter_fetchall)
    from filter_le_one_index [OF this that(1,2)] that(3,4) show ?thesis by simp
  qed
  have one: "\<exists>!i. i < length ps \<and> (fst (ps ! i) = Some p \<or> fst (snd (snd (ps ! i))) = Some p)"
    if "Some p \<in> fst ` set st" for p
  proof -
    from that obtain j where j: "j < length st" "fst (st ! j) = Some p"
      by (auto simp: in_set_conv_nth)
    from assms(3) j(1) have jn: "j div 2 < n"
      unfolding n_def by (auto elim!: evenE)
    have "2 * (j div 2) = j \<or> 2 * (j div 2) + 1 = j" by presburger
    with j(2) ids [OF jn]
    have ex: "fst (ps ! (j div 2)) = Some p \<or> fst (snd (snd (ps ! (j div 2)))) = Some p"
      by metis
    have uniq: "i = j div 2"
      if i: "i < n" "fst (ps ! i) = Some p \<or> fst (snd (snd (ps ! i))) = Some p" for i
    proof -
      from i ids [OF i(1)] have "fst (st ! (2 * i)) = Some p \<or> fst (st ! (2 * i + 1)) = Some p"
        by simp
      then have "2 * i = j \<or> 2 * i + 1 = j"
        using once bound [OF i(1)] j by blast
      then show ?thesis by presburger
    qed
    show ?thesis
    proof (rule ex1I [of _ "j div 2"])
      show "j div 2 < length ps \<and>
            (fst (ps ! (j div 2)) = Some p \<or> fst (snd (snd (ps ! (j div 2)))) = Some p)"
        using ex jn len by simp
    next
      fix i
      assume "i < length ps \<and> (fst (ps ! i) = Some p \<or> fst (snd (snd (ps ! i))) = Some p)"
      then show "i = j div 2"
        using uniq [of i] len by simp
    qed
  qed
  show ?thesis
  proof (intro exI conjI allI impI)
    show "swissPairings rank fault db = Inr ps" by (rule ps)
    show "length ps = length st div 2" using len by (simp add: n_def)
    show "ps ! i = (fst (st ! (2 * i)), fst (snd (st ! (2 * i))),
                    fst (st ! (2 * i + 1)), fst (snd (st ! (2 * i + 1))))"
      if "i < length st div 2" for i
      using that by (intro nth) (simp add: n_def)
    show "\<exists>!i. i < length ps \<and> (fst (ps ! i) = Some p \<or> fst (snd (snd (ps ! i))) = Some p)"
      if "Some p \<in> fst ` set st" for p
      using that by (rule one)
  qed
qed

theorem swissPairings_adjacent_witness:
  "distinct (map fst (players round_one))
   \<and> playerStandings (\<lambda>i. i mod 2) None round_one =
       Inr [(Some 1, Some ''A'', 1, 1), (Some 3, Some ''C'', 1, 1),
            (Some 2, Some ''B'', 0, 1), (Some 4, Some ''D'', 0, 1)]
   \<and> even (length ([(Some 1, Some ''A'', 1, 1), (Some 3, Some ''C'', 1, 1),
                     (Some 2, Some ''B'', 0, 1), (Some 4, Some ''D'', 0, 1)] :: standing list))
   \<and> swissPairings (\<lambda>i. i mod 2) None round_one =
       Inr [(Some 1, Some ''A'', Some 3, Some ''C''), (Some 2, Some ''B'', Some 4, Some ''D'')]"
proof -
  have d: "distinct (map fst (players round_one))"
    by (simp add: round_one_def)
  have e: "even (length ([(Some 1, Some ''A'', 1, 1), (Some 3, Some ''C'', 1, 1),
                          (Some 2, Some ''B'', 0, 1), (Some 4, Some ''D'', 0, 1)] :: standing list))"
    by simp
  from swissPairings_adjacent [OF d round_one_winners_first e]
  obtain ps where ps: "swissPairings (\<lambda>i. i mod 2) None round_one = Inr ps"
    and len: "length ps = 2"
    and nth: "\<forall>i<2. ps ! i =
               (fst ([(Some (1::int), Some ''A'', 1::int, 1::int), (Some 3, Some ''C'', 1, 1),
                      (Some 2, Some ''B'', 0, 1), (Some 4, Some ''D'', 0, 1)] ! (2 * i)),
                fst (snd ([(Some (1::int), Some ''A'', 1::int, 1::int), (Some 3, Some ''C'', 1, 1),
                      (Some 2, Some ''B'', 0, 1), (Some 4, Some ''D'', 0, 1)] ! (2 * i))),
                fst ([(Some (1::int), Some ''A'', 1::int, 1::int), (Some 3, Some ''C'', 1, 1),
                      (Some 2, Some ''B'', 0, 1), (Some 4, Some ''D'', 0, 1)] ! (2 * i + 1)),
                fst (snd ([(Some (1::int), Some ''A'', 1::int, 1::int), (Some 3, Some ''C'', 1, 1),
                      (Some 2, Some ''B'', 0, 1), (Some 4, Some ''D'', 0, 1)] ! (2 * i + 1))))"
    by auto
  from nth have "ps ! 0 = (Some 1, Some ''A'', Some 3, Some ''C'')"
    and "ps ! 1 = (Some 2, Some ''B'', Some 4, Some ''D'')"
    by simp_all
  with len have "ps = [(Some 1, Some ''A'', Some 3, Some ''C''), (Some 2, Some ''B'', Some 4, Some ''D'')]"
    by (auto simp: list_eq_iff_nth_eq less_Suc_eq numeral_2_eq_2)
  with ps d round_one_winners_first show ?thesis by simp
qed

text \<open>
  C4: a registered player who appears in no recorded match still has an entry in the
  list \<open>playerStandings\<close> returns, with the id and the name (neither is NULL), \<open>wins = 0\<close> and
  \<open>matches_played = 0\<close>.
\<close>

theorem playerStandings_unplayed:
  assumes "(pid, name) \<in> set (players db)"
    and "pid \<notin> fst ` set (matches db)"
    and "pid \<notin> snd ` set (matches db)"
  shows "\<exists>st. playerStandings rank None db = Inr st \<and> (Some pid, Some name, 0, 0) \<in> set st"
proof -
  have "player_entry db (pid, name) = (Some pid, Some name, 0, 0)"
    using assms(2,3) by (simp add: player_entry_def won_zero lost_zero)
  with assms(1) have "(Some pid, Some name, 0, 0) \<in> set (plyr_stnd_q db)"
    by (force simp: plyr_stnd_q_rows)
  then show ?thesis
    by (simp add: playerStandings_ok set_fetchall)
qed

theorem playerStandings_unplayed_witness:
  "(3, ''C'') \<in> set (players late_entry)
   \<and> 3 \<notin> fst ` set (matches late_entry)
   \<and> 3 \<notin> snd ` set (matches late_entry)
   \<and> (\<exists>st. playerStandings (\<lambda>i. 2 - i) None late_entry = Inr st
          \<and> (Some 3, Some ''C'', 0, 0) \<in> set st)"
proof -
  have h1: "(3, ''C'') \<in> set (players late_entry)"
    by (simp add: late_entry_def)
  have h2: "3 \<notin> fst ` set (matches late_entry)"
    by (simp add: late_entry_def)
  have h3: "3 \<notin> snd ` set (matches late_entry)"
    by (simp add: late_entry_def)
  from playerStandings_unplayed [OF h1 h2 h3, of "\<lambda>i. 2 - i"] h1 h2 h3
  show ?thesis by simp
qed

text \<open>
  C5: in every standings output the entry of a player \<open>p\<close> has \<open>wins\<close> equal to the
  number of matches in which \<open>p\<close> is the winner, and \<open>matches_played\<close> equal to these
  wins plus the number of matches in which \<open>p\<close> is the loser.
\<close>

theorem playerStandings_total:
  assumes "playerStandings rank fault db = Inr st"
    and "(Some p, name, w, t) \<in> set st"
  shows "w = won db p \<and> t = w + lost db p"
  using assms
  by (auto simp: playerStandings_Inr set_fetchall plyr_stnd_q_rows player_entry_def
      orphan_entry_def)

theorem playerStandings_total_witness:
  "playerStandings (\<lambda>_. 0) None late_entry =
     Inr [(Some 1, Some ''A'', 0, 2), (Some 2, Some ''B'', 2, 2), (Some 3, Some ''C'', 0, 0)]
   \<and> (Some 2, Some ''B'', 2, 2) \<in>
       set ([(Some 1, Some ''A'', 0, 2), (Some 2, Some ''B'', 2, 2), (Some 3, Some ''C'', 0, 0)]
            :: standing list)
   \<and> won late_entry 2 = 2 \<and> lost late_entry 2 = 0
   \<and> (Some 1, Some ''A'', 0, 2) \<in>
       set ([(Some 1, Some ''A'', 0, 2), (Some 2, Some ''B'', 2, 2), (Some 3, Some ''C'', 0, 0)]
            :: standing list)
   \<and> won late_entry 1 = 0 \<and> lost late_entry 1 = 2"
proof -
  have b: "(Some 2, Some ''B'', 2, 2) \<in>
           set ([(Some 1, Some ''A'', 0, 2), (Some 2, Some ''B'', 2, 2), (Some 3, Some ''C'', 0, 0)]
                :: standing list)"
    by simp
  have a: "(Some 1, Some ''A'', 0, 2) \<in>
           set ([(Some 1, Some ''A'', 0, 2), (Some 2, Some ''B'', 2, 2), (Some 3, Some ''C'', 0, 0)]
                :: standing list)"
    by simp
  from playerStandings_total [OF late_entry_table_order b]
    playerStandings_total [OF late_entry_table_order a]
    late_entry_table_order
  show ?thesis by simp
qed




text \<open>
  C7: the wins of all entries of a standings output add up to the number of recorded
  matches: each match counts once, for its winner. The ids of the players are pairwise
  different, as the serial counter makes them.
\<close>

theorem playerStandings_sum_wins:
  assumes "distinct (map fst (players db))"
    and "playerStandings rank fault db = Inr st"
  shows "sum_list (map (\<lambda>(i, n, w, t). w) st) = int (length (matches db))"
proof -
  let ?ids = "map fst (players db) @ orphan_ids db"
  have d: "distinct ?ids"
    using assms(1) by (auto simp: orphan_ids_def distinct_match_ids)
  have cover: "fst ` set (matches db) \<subseteq> set ?ids"
    by (auto simp: orphan_ids_def set_match_ids)
  have "sum_list (map (\<lambda>(i, n, w, t). w) (plyr_stnd_q db)) = sum_list (map (won db) ?ids)"
    by (simp add: plyr_stnd_q_rows comp_def player_entry_def orphan_entry_def)
  also have "\<dots> = int (length (matches db))"
    by (rule sum_won [OF d cover])
  finally show ?thesis
    using assms(2) by (simp add: playerStandings_Inr sum_list_fetchall)
qed

theorem playerStandings_sum_wins_witness:
  "distinct (map fst (players late_entry))
   \<and> playerStandings (\<lambda>_. 0) None late_entry =
       Inr [(Some 1, Some ''A'', 0, 2), (Some 2, Some ''B'', 2, 2), (Some 3, Some ''C'', 0, 0)]
   \<and> length (matches late_entry) = 2"
proof -
  have d: "distinct (map fst (players late_entry))"
    by (simp add: late_entry_def)
  from playerStandings_sum_wins [OF d late_entry_table_order]
  have "length (matches late_entry) = 2" by simp
  with d late_entry_table_order show ?thesis by simp
qed




text \<open>
  C9: when the standings have even length and pairwise different player ids, the two
  ids of every pair that \<open>swissPairings\<close> returns are different: no player is paired
  with themselves.
\<close>

theorem swissPairings_no_self_pair:
  assumes "playerStandings rank fault db = Inr st"
    and "even (length st)"
    and "distinct (map fst st)"
  shows "\<exists>ps. swissPairings rank fault db = Inr ps
          \<and> (\<forall>(id1, name1, id2, name2) \<in> set ps. id1 \<noteq> id2)"
proof -
  have "fst (st ! (2 * k)) \<noteq> fst (st ! (2 * k + 1))" if "k < length st div 2" for k
  proof -
    from that assms(2) have lt: "2 * k < length st" "2 * k + 1 < length st"
      by (auto elim!: evenE)
    with assms(3) have "(map fst st ! (2 * k) = map fst st ! (2 * k + 1)) = (2 * k = 2 * k + 1)"
      by (intro nth_eq_iff_index_eq) simp_all
    with lt show ?thesis by simp
  qed
  then show ?thesis
    by (auto simp: swissPairings_even [OF assms(1,2)] pair_of_def)
qed

theorem swissPairings_no_self_pair_witness:
  "playerStandings (\<lambda>_. 0) None round_one =
     Inr [(Some 1, Some ''A'', 1, 1), (Some 2, Some ''B'', 0, 1),
          (Some 3, Some ''C'', 1, 1), (Some 4, Some ''D'', 0, 1)]
   \<and> even (length ([(Some 1, Some ''A'', 1, 1), (Some 2, Some ''B'', 0, 1),
                     (Some 3, Some ''C'', 1, 1), (Some 4, Some ''D'', 0, 1)] :: standing list))
   \<and> distinct (map fst ([(Some 1, Some ''A'', 1, 1), (Some 2, Some ''B'', 0, 1),
                          (Some 3, Some ''C'', 1, 1), (Some 4, Some ''D'', 0, 1)] :: standing list))
   \<and> (\<exists>ps. swissPairings (\<lambda>_. 0) None round_one = Inr ps
          \<and> list_all (\<lambda>(id1, name1, id2, name2). id1 \<noteq> id2) ps)"
proof -
  have e: "even (length ([(Some 1, Some ''A'', 1, 1), (Some 2, Some ''B'', 0, 1),
                          (Some 3, Some ''C'', 1, 1), (Some 4, Some ''D'', 0, 1)] :: standing list))"
    by simp
  have d: "distinct (map fst ([(Some 1, Some ''A'', 1, 1), (Some 2, Some ''B'', 0, 1),
                               (Some 3, Some ''C'', 1, 1), (Some 4, Some ''D'', 0, 1)]
                              :: standing list))"
    by simp
  from swissPairings_no_self_pair [OF round_one_table_order e d] round_one_table_order
  show ?thesis by (simp add: list_all_iff)
qed

end
